theory Spec2Isabelle
  imports
    Complex_Main
    "HOL-Library.Char_ord"
    "HOL-Library.List_Lexorder"
    "HOL-Library.Product_Lexorder"
begin

section \<open>Daily pulse builder: a shallow embedding of build\_pulse.py\<close>

text \<open>
  The development follows \<^verbatim>\<open>src/build_pulse.py\<close> function by function. Modelling
  conventions:
  \<^item> a Python \<^verbatim>\<open>str\<close> is a \<open>string\<close>; a data-frame cell is a \<open>string option\<close>, where
    \<open>None\<close> is the missing value on which \<^verbatim>\<open>pd.isna\<close> answers true and \<open>Some t\<close> carries
    the text \<^verbatim>\<open>str(cell)\<close>;
  \<^item> \<^verbatim>\<open>str.lower\<close> is modelled on the ASCII letters, character by character;
  \<^item> Python and numpy floats are modelled by exact rationals (\<open>rat\<close>): the binary64
    representation error is not part of the model. A non-finite float is modelled as an
    outcome of the polarity capability; a rate text whose number is beyond the range of
    a finite float is outside the model;
  \<^item> the library calls whose code is not part of the repository (\<^verbatim>\<open>pd.to_datetime\<close>,
    \<^verbatim>\<open>TextBlob(...).sentiment.polarity\<close>) are parameters of the model;
  \<^item> a data frame is the list of its rows, in row order.
\<close>

subsection \<open>Strings\<close>

type_synonym cell = "string option"

definition upper_letters :: string where
  "upper_letters = ''ABCDEFGHIJKLMNOPQRSTUVWXYZ''"

definition lower_letters :: string where
  "lower_letters = ''abcdefghijklmnopqrstuvwxyz''"

definition lower_char :: "char \<Rightarrow> char" where
  "lower_char c = (case map_of (zip upper_letters lower_letters) c of Some d \<Rightarrow> d | None \<Rightarrow> c)"

text \<open>\<^verbatim>\<open>s.lower()\<close>\<close>

definition lower :: "string \<Rightarrow> string" where
  "lower s = map lower_char s"

text \<open>\<^verbatim>\<open>s.startswith(k)\<close>, the test made at every position by \<^verbatim>\<open>k in s\<close>.\<close>

fun startswith :: "string \<Rightarrow> string \<Rightarrow> bool" where
  "startswith s [] = True"
| "startswith [] (k # ks) = False"
| "startswith (c # s) (k # ks) = (c = k \<and> startswith s ks)"

text \<open>\<^verbatim>\<open>k in s\<close> on strings: \<open>k\<close> occurs in \<open>s\<close> as a contiguous substring.\<close>

fun str_in :: "string \<Rightarrow> string \<Rightarrow> bool" where
  "str_in k [] = (k = [])"
| "str_in k (c # s) = (startswith (c # s) k \<or> str_in k s)"

text \<open>\<^verbatim>\<open>any(k in text for k in keywords)\<close>\<close>

definition any_in :: "string list \<Rightarrow> string \<Rightarrow> bool" where
  "any_in keywords s = list_ex (\<lambda>k. str_in k s) keywords"

text \<open>\<open>k\<close> occurs in \<open>t\<close> as a contiguous substring: the meaning of \<^verbatim>\<open>k in t\<close>.\<close>

abbreviation occurs_in :: "string \<Rightarrow> string \<Rightarrow> bool" where
  "occurs_in k t \<equiv> \<exists>p q. t = p @ k @ q"

subsection \<open>Field classifiers\<close>

definition REGION_MAPPING :: "(string \<times> string list) list" where
  "REGION_MAPPING =
    [(''NA'', [''us'', ''united states'', ''canada'', ''mexico'', ''los angeles'',
               ''atlanta'', ''chicago'', ''toronto'', ''vancouver'']),
     (''EU'', [''uk'', ''united kingdom'', ''germany'', ''france'', ''italy'', ''spain'',
               ''netherlands'', ''london'', ''paris'', ''berlin'']),
     (''AP'', [''india'', ''china'', ''japan'', ''korea'', ''australia'', ''singapore'',
               ''hong kong'', ''new zealand'', ''thailand'']),
     (''LA'', [''brazil'', ''argentina'', ''chile'', ''colombia'', ''peru'', ''venezuela'',
               ''mexico city''])]"

definition PROJECT_TYPE_MAPPING :: "(string \<times> string list) list" where
  "PROJECT_TYPE_MAPPING =
    [(''F'', [''film'', ''movie'', ''feature'']),
     (''T'', [''tv'', ''series'', ''streaming'', ''show'', ''episode'']),
     (''C'', [''commercial'', ''advertisement'', ''ad'']),
     (''V'', [])]"

text \<open>
  The loop \<^verbatim>\<open>for code, keywords in MAPPING.items(): if any(...): return code\<close>
  followed by \<^verbatim>\<open>return default\<close>. A Python dict iterates in insertion order, so the
  table is an association list in the order it is written.
\<close>

fun first_code :: "(string \<times> string list) list \<Rightarrow> string \<Rightarrow> string \<Rightarrow> string" where
  "first_code [] s dflt = dflt"
| "first_code ((code, keywords) # rest) s dflt =
     (if any_in keywords s then code else first_code rest s dflt)"

definition map_region :: "cell \<Rightarrow> string" where
  "map_region location =
     (case location of
        None \<Rightarrow> ''NA''
      | Some t \<Rightarrow> first_code REGION_MAPPING (lower t) ''NA'')"

text \<open>
  A keyword table with some keywords struck out of every category: used to state that a
  keyword never decides the result.
\<close>

definition without_keywords ::
  "string list \<Rightarrow> (string \<times> string list) list \<Rightarrow> (string \<times> string list) list" where
  "without_keywords dropped m = map (\<lambda>(code, kws). (code, filter (\<lambda>k. k \<notin> set dropped) kws)) m"

definition map_project_type :: "cell \<Rightarrow> string" where
  "map_project_type project_type =
     (case project_type of
        None \<Rightarrow> ''V''
      | Some t \<Rightarrow> first_code PROJECT_TYPE_MAPPING (lower t) ''V'')"

definition is_lead :: "cell \<Rightarrow> bool" where
  "is_lead role_type =
     (case role_type of
        None \<Rightarrow> False
      | Some t \<Rightarrow> any_in [''lead'', ''principal'', ''main'', ''starring''] (lower t))"

definition is_union :: "cell \<Rightarrow> bool" where
  "is_union union_status =
     (case union_status of
        None \<Rightarrow> False
      | Some t \<Rightarrow>
          (let status = lower t
           in \<not> str_in ''non-union'' status
              \<and> any_in [''sag'', ''aftra'', ''equity'', ''union''] status))"

definition has_ai_keywords :: "cell \<Rightarrow> bool" where
  "has_ai_keywords text =
     (case text of
        None \<Rightarrow> False
      | Some t \<Rightarrow>
          any_in [''ai'', ''robot'', ''android'', ''artificial intelligence'', ''cyborg'',
                  ''machine learning''] (lower t))"

subsection \<open>Numbers\<close>

definition digit_chars :: string where
  "digit_chars = ''0123456789''"

definition digit_val :: "char \<Rightarrow> nat" where
  "digit_val c = (case map_of (zip digit_chars [0, 1, 2, 3, 4, 5, 6, 7, 8, 9]) c of
                    Some d \<Rightarrow> d | None \<Rightarrow> 0)"

definition is_digit :: "char \<Rightarrow> bool" where
  "is_digit c = (c \<in> set digit_chars)"

text \<open>The value of a run of decimal digits, most significant digit first.\<close>

definition digits_val :: "string \<Rightarrow> nat" where
  "digits_val ds = foldl (\<lambda>acc c. 10 * acc + digit_val c) 0 ds"

text \<open>
  \<^verbatim>\<open>re.findall(r'\d+\.?\d*', str(text))\<close> followed by \<^verbatim>\<open>float(nums[0])\<close>: the leftmost
  match starts at the first digit, takes the whole run of digits, one optional point and
  the digits after it. \<open>None\<close> is \<^verbatim>\<open>np.nan\<close>.
\<close>

definition extract_rate :: "cell \<Rightarrow> rat option" where
  "extract_rate text =
     (case text of
        None \<Rightarrow> None
      | Some t \<Rightarrow>
          (let from_digit = dropWhile (\<lambda>c. \<not> is_digit c) t
           in if from_digit = [] then None
              else
                (let whole = takeWhile is_digit from_digit;
                     after = dropWhile is_digit from_digit;
                     frac = (case after of
                               [] \<Rightarrow> []
                             | c # cs \<Rightarrow> if c = CHR ''.'' then takeWhile is_digit cs else [])
                 in Some (of_nat (digits_val whole)
                          + of_nat (digits_val frac) / 10 ^ length frac))))"

text \<open>Python's \<^verbatim>\<open>round(x)\<close> to an integer: to the nearest, a tie to the even neighbour.\<close>

definition py_round :: "rat \<Rightarrow> int" where
  "py_round x =
     (let f = \<lfloor>x\<rfloor>; d = x - of_int f
      in if d < 1 / 2 then f
         else if 1 / 2 < d then f + 1
         else if even f then f else f + 1)"

text \<open>\<^verbatim>\<open>round(x, n)\<close>: to the nearest multiple of \<open>10 ^ (- n)\<close>, a tie to the even one.\<close>

definition py_round_nd :: "rat \<Rightarrow> nat \<Rightarrow> rat" where
  "py_round_nd x n = of_int (py_round (x * 10 ^ n)) / 10 ^ n"

text \<open>\<^verbatim>\<open>max(min_val, min(max_val, value))\<close>\<close>

definition clamp :: "rat \<Rightarrow> rat \<Rightarrow> rat \<Rightarrow> rat" where
  "clamp val min_val max_val = max min_val (min max_val val)"

subsection \<open>Sentiment\<close>

text \<open>
  What \<^verbatim>\<open>TextBlob(str(text)).sentiment.polarity\<close> can do: raise, return a float that is
  not finite (on which \<^verbatim>\<open>round\<close> raises), or return a finite float.
\<close>

datatype polarity_result = Raises | NonFinite | Polarity rat

text \<open>
  The scorer returns its value together with the list of texts on which it invoked the
  capability, so that a call is visible in the model. Every exception inside the
  \<^verbatim>\<open>try\<close> block ends in the bare \<^verbatim>\<open>except\<close>, which returns 0.0.
\<close>

definition calc_sentiment :: "(string \<Rightarrow> polarity_result) \<Rightarrow> cell \<Rightarrow> rat \<times> string list" where
  "calc_sentiment capability text =
     (case text of
        None \<Rightarrow> (0, [])
      | Some t \<Rightarrow>
          (case capability t of
             Raises \<Rightarrow> (0, [t])
           | NonFinite \<Rightarrow> (0, [t])
           | Polarity polarity \<Rightarrow> (of_int (py_round (polarity * 20)) / 20, [t])))"

subsection \<open>Records of the three tables\<close>

record raw_record =
  posted_date :: cell
  work_location :: cell
  project_type :: cell
  role_type :: cell
  union_status :: cell
  rate :: cell
  role_description :: cell

text \<open>A calendar date as (year, month, day); its order is the lexicographic one.\<close>

type_synonym date = "nat \<times> nat \<times> nat"

type_synonym bucket_key = "date \<times> string \<times> string"

text \<open>
  The columns that \<^verbatim>\<open>process\<close> adds to the frame. \<open>date_utc = None\<close> is \<^verbatim>\<open>NaT\<close>,
  \<open>rate_val = None\<close> is \<^verbatim>\<open>NaN\<close>.
\<close>

record derived_record =
  date_utc :: "date option"
  region_code :: string
  proj_type_code :: string
  is_lead_col :: bool
  is_union_col :: bool
  rate_val :: "rat option"
  sentiment :: rat
  has_ai :: bool

record pulse_row =
  date_utc_out :: date
  region_code_out :: string
  proj_type_code_out :: string
  role_count_day :: nat
  lead_share_pct_day :: rat
  union_share_pct_day :: rat
  median_rate_day_usd :: "int option"
  sentiment_avg_day :: rat
  theme_ai_share_pct_day :: rat

datatype py_error = KeyError string

subsection \<open>Record normalizer\<close>

text \<open>
  Lines 119 to 128 of \<^verbatim>\<open>process\<close>, for one row. \<open>to_date\<close> stands for
  \<^verbatim>\<open>pd.to_datetime(..., errors='coerce')\<close> followed by \<^verbatim>\<open>.dt.date\<close>.
\<close>

definition normalize_record ::
  "(cell \<Rightarrow> date option) \<Rightarrow> (string \<Rightarrow> polarity_result) \<Rightarrow> raw_record \<Rightarrow> derived_record" where
  "normalize_record to_date capability r =
     \<lparr> date_utc = to_date (posted_date r),
       region_code = map_region (work_location r),
       proj_type_code = map_project_type (project_type r),
       is_lead_col = is_lead (role_type r),
       is_union_col = is_union (union_status r),
       rate_val = extract_rate (rate r),
       sentiment = fst (calc_sentiment capability (role_description r)),
       has_ai = has_ai_keywords (role_description r) \<rparr>"

subsection \<open>Bucket aggregator\<close>

definition row_key :: "derived_record \<Rightarrow> bucket_key option" where
  "row_key r = (case date_utc r of
                  None \<Rightarrow> None
                | Some d \<Rightarrow> Some (d, region_code r, proj_type_code r))"

text \<open>The rows of the frame that carry the key \<open>k\<close>, in frame order.\<close>

definition bucket :: "derived_record list \<Rightarrow> bucket_key \<Rightarrow> derived_record list" where
  "bucket df k = filter (\<lambda>r. row_key r = Some k) df"

text \<open>
  \<^verbatim>\<open>df.groupby(['date_utc', 'region_code', 'proj_type_code'])\<close> with the defaults of
  pandas (\<^verbatim>\<open>sort=True\<close>, \<^verbatim>\<open>dropna=True\<close>), as iterated by the \<^verbatim>\<open>for\<close> loop: one pair per
  distinct key in ascending key order, a row with a missing key column is in no group, and
  the rows of a group keep their frame order.
\<close>

definition groupby :: "derived_record list \<Rightarrow> (bucket_key \<times> derived_record list) list" where
  "groupby df =
     map (\<lambda>k. (k, bucket df k)) (sort (remdups (List.map_filter row_key df)))"

text \<open>\<^verbatim>\<open>series.sum()\<close> on a column of booleans.\<close>

definition count_true :: "bool list \<Rightarrow> nat" where
  "count_true bs = length (filter (\<lambda>b. b) bs)"

text \<open>\<^verbatim>\<open>series.dropna()\<close>\<close>

definition dropna :: "'a option list \<Rightarrow> 'a list" where
  "dropna xs = List.map_filter (\<lambda>x. x) xs"

text \<open>\<^verbatim>\<open>series.median()\<close> of a non-empty series.\<close>

definition median :: "rat list \<Rightarrow> rat" where
  "median xs =
     (let s = sort xs; n = length s
      in if odd n then s ! (n div 2)
         else (s ! (n div 2 - 1) + s ! (n div 2)) / 2)"

text \<open>The body of the loop after the size test: the row appended to \<^verbatim>\<open>results\<close>.\<close>

definition pulse_of :: "bucket_key \<Rightarrow> derived_record list \<Rightarrow> pulse_row" where
  "pulse_of k grp =
     (let total = length grp;
          lead_pct = clamp (of_nat (count_true (map is_lead_col grp)) / of_nat total) 0 1;
          union_pct = clamp (of_nat (count_true (map is_union_col grp)) / of_nat total) 0 1;
          ai_pct = clamp (of_nat (count_true (map has_ai grp)) / of_nat total) 0 1;
          valid_rates = dropna (map rate_val grp);
          median_rate = (if valid_rates \<noteq> []
                         then Some (py_round (median valid_rates / 250) * 250) else None);
          avg_sentiment = clamp (sum_list (map sentiment grp) / of_nat total) (- 1) 1
      in \<lparr> date_utc_out = fst k,
           region_code_out = fst (snd k),
           proj_type_code_out = snd (snd k),
           role_count_day = total,
           lead_share_pct_day = py_round_nd lead_pct 1,
           union_share_pct_day = py_round_nd union_pct 1,
           median_rate_day_usd = median_rate,
           sentiment_avg_day = py_round_nd avg_sentiment 2,
           theme_ai_share_pct_day = py_round_nd ai_pct 1 \<rparr>)"

text \<open>The loop over the groups: a group of fewer than 5 rows is skipped.\<close>

fun aggregate_groups :: "(bucket_key \<times> derived_record list) list \<Rightarrow> pulse_row list" where
  "aggregate_groups [] = []"
| "aggregate_groups ((k, grp) # rest) =
     (if length grp < 5 then aggregate_groups rest
      else pulse_of k grp # aggregate_groups rest)"

definition bucket_and_aggregate :: "derived_record list \<Rightarrow> pulse_row list" where
  "bucket_and_aggregate df = aggregate_groups (groupby df)"

subsection \<open>Pipeline\<close>

definition pulse_key :: "pulse_row \<Rightarrow> bucket_key" where
  "pulse_key p = (date_utc_out p, region_code_out p, proj_type_code_out p)"

text \<open>
  \<^verbatim>\<open>process\<close> from the frame read by \<^verbatim>\<open>pd.read_csv\<close> to the frame handed to
  \<^verbatim>\<open>to_csv\<close>. \<^verbatim>\<open>pd.DataFrame(results)\<close> of an empty list is a frame without columns,
  on which \<^verbatim>\<open>sort_values(['date_utc', ...])\<close> raises \<^verbatim>\<open>KeyError\<close> before anything is
  written.
\<close>

definition process ::
  "(cell \<Rightarrow> date option) \<Rightarrow> (string \<Rightarrow> polarity_result) \<Rightarrow> raw_record list
   \<Rightarrow> py_error + pulse_row list" where
  "process to_date capability rows =
     (let df = map (normalize_record to_date capability) rows;
          pulse = bucket_and_aggregate df
      in if pulse = [] then Inl (KeyError ''date_utc'')
         else Inr (sort_key pulse_key pulse))"

subsection \<open>Sample inputs\<close>

text \<open>A polarity capability that answers on one text, is not finite on one and raises on the rest.\<close>

definition sample_capability :: "string \<Rightarrow> polarity_result" where
  "sample_capability t =
     (if t = ''good'' then Polarity (33 / 100)
      else if t = ''inf'' then NonFinite
      else Raises)"

text \<open>
  A frame of derived records: five rows of one bucket (one lead, two rates), a row without
  a date and two rows of a second bucket.
\<close>

definition sample_key :: bucket_key where
  "sample_key = ((2024, 3, 15), ''NA'', ''F'')"

definition sample_record :: "date option \<Rightarrow> bool \<Rightarrow> rat option \<Rightarrow> derived_record" where
  "sample_record d flag r =
     \<lparr> date_utc = d, region_code = ''NA'', proj_type_code = ''F'',
       is_lead_col = flag, is_union_col = flag, rate_val = r,
       sentiment = 7 / 20, has_ai = flag \<rparr>"

definition sample_df :: "derived_record list" where
  "sample_df =
     [sample_record (Some (2024, 3, 15)) True (Some 1200),
      sample_record (Some (2024, 3, 16)) True (Some 900),
      sample_record (Some (2024, 3, 15)) False (Some 1300),
      sample_record None True (Some 5000),
      sample_record (Some (2024, 3, 15)) False None,
      sample_record (Some (2024, 3, 15)) False None,
      sample_record (Some (2024, 3, 16)) False None,
      sample_record (Some (2024, 3, 15)) False None]"


text \<open>Raw rows: a date parser that knows one date, and four listings of one bucket.\<close>

definition sample_to_date :: "cell \<Rightarrow> date option" where
  "sample_to_date c = (if c = Some ''2024-03-15'' then Some (2024, 3, 15) else None)"

definition sample_raw :: "cell \<Rightarrow> raw_record" where
  "sample_raw d =
     \<lparr> posted_date = d, work_location = Some ''Los Angeles'',
       project_type = Some ''Feature Film'', role_type = Some ''Lead'',
       union_status = Some ''SAG'', rate = Some ''$1200'',
       role_description = Some ''good'' \<rparr>"

definition four_rows :: "raw_record list" where
  "four_rows =
     [sample_raw (Some ''2024-03-15''), sample_raw (Some ''2024-03-15''),
      sample_raw (Some ''2024-03-15''), sample_raw (Some ''2024-03-15'')]"

text \<open>Six listings of one bucket, one of them with a date that does not parse.\<close>

definition six_rows :: "raw_record list" where
  "six_rows =
     [sample_raw (Some ''2024-03-15''), sample_raw (Some ''2024-03-15''),
      sample_raw (Some ''soon''), sample_raw (Some ''2024-03-15''),
      sample_raw (Some ''2024-03-15''), sample_raw (Some ''2024-03-15'')]"

text \<open>What the normalizer makes of a sample listing, up to its date.\<close>

definition sample_derived :: "date option \<Rightarrow> derived_record" where
  "sample_derived d =
     \<lparr> date_utc = d, region_code = ''NA'', proj_type_code = ''F'',
       is_lead_col = True, is_union_col = True, rate_val = Some 1200,
       sentiment = 7 / 20, has_ai = False \<rparr>"

section \<open>Properties\<close>

subsection \<open>Substring search\<close>

lemma startswith_iff: "startswith s k \<longleftrightarrow> (\<exists>q. s = k @ q)"
  by (induction s k rule: startswith.induct) auto

lemma str_in_iff: "str_in k s \<longleftrightarrow> occurs_in k s"
proof (induction s)
  case Nil
  then show ?case by auto
next
  case (Cons c s)
  show ?case
  proof
    assume "str_in k (c # s)"
    then consider "startswith (c # s) k" | "str_in k s" by auto
    then show "occurs_in k (c # s)"
    proof cases
      case 1
      then obtain q where "c # s = k @ q" by (auto simp: startswith_iff)
      then have "c # s = [] @ k @ q" by simp
      then show ?thesis by blast
    next
      case 2
      then obtain p q where "s = p @ k @ q" using Cons.IH by blast
      then have "c # s = (c # p) @ k @ q" by simp
      then show ?thesis by blast
    qed
  next
    assume "occurs_in k (c # s)"
    then obtain p q where pq: "c # s = p @ k @ q" by blast
    show "str_in k (c # s)"
    proof (cases p)
      case Nil
      with pq have "startswith (c # s) k" by (auto simp: startswith_iff)
      then show ?thesis by simp
    next
      case (Cons a p')
      with pq have "s = p' @ k @ q" by simp
      then have "str_in k s" using Cons.IH by blast
      then show ?thesis by simp
    qed
  qed
qed

lemma any_in_iff: "any_in ks t \<longleftrightarrow> (\<exists>k\<in>set ks. occurs_in k t)"
  by (simp add: any_in_def list_ex_iff str_in_iff)

lemma not_bexI: "\<forall>k\<in>A. \<not> P k \<Longrightarrow> \<not> (\<exists>k\<in>A. P k)"
  by blast

lemma occurs_in_trans:
  assumes "occurs_in k m" and "occurs_in m t"
  shows "occurs_in k t"
proof -
  from assms obtain a b c d where "m = a @ k @ b" "t = c @ m @ d" by blast
  then have "t = (c @ a) @ k @ (b @ d)" by simp
  then show ?thesis by blast
qed

lemma str_in_trans: "str_in k m \<Longrightarrow> str_in m t \<Longrightarrow> str_in k t"
  unfolding str_in_iff by (rule occurs_in_trans)

lemma occurs_in_lower:
  assumes "occurs_in k t"
  shows "occurs_in (lower k) (lower t)"
proof -
  from assms obtain p q where "t = p @ k @ q" by blast
  then have "lower t = lower p @ lower k @ lower q" by (simp add: lower_def)
  then show ?thesis by blast
qed

lemmas lower_eval = lower_def lower_char_def upper_letters_def lower_letters_def

subsection \<open>Region mapper\<close>

lemma first_code_hit:
  "i < length m \<Longrightarrow> any_in (snd (m ! i)) s \<Longrightarrow> \<forall>j<i. \<not> any_in (snd (m ! j)) s
   \<Longrightarrow> first_code m s dflt = fst (m ! i)"
proof (induction m s dflt arbitrary: i rule: first_code.induct)
  case (1 s dflt)
  then show ?case by simp
next
  case (2 code kws rest s dflt)
  show ?case
  proof (cases i)
    case 0
    with "2.prems" show ?thesis by simp
  next
    case (Suc n)
    with "2.prems" have no: "\<not> any_in kws s" by auto
    from Suc "2.prems" have "n < length rest" "any_in (snd (rest ! n)) s"
      "\<forall>j<n. \<not> any_in (snd (rest ! j)) s" by auto
    with "2.IH"[OF no] have "first_code rest s dflt = fst (rest ! n)" by blast
    with no Suc show ?thesis by simp
  qed
qed

lemma first_code_miss:
  "\<forall>i<length m. \<not> any_in (snd (m ! i)) s \<Longrightarrow> first_code m s dflt = dflt"
proof (induction m s dflt rule: first_code.induct)
  case (1 s dflt)
  then show ?case by simp
next
  case (2 code kws rest s dflt)
  from "2.prems" have no: "\<not> any_in kws s" by auto
  from "2.prems" have "\<forall>i<length rest. \<not> any_in (snd (rest ! i)) s" by auto
  with "2.IH"[OF no] no show ?case by simp
qed

text \<open>
  Claim C4. The region mapper lower-cases the location text and returns the first
  category, in the fixed order NA, EU, AP, LA, one of whose keywords occurs in the text
  as a substring: a category at position \<open>i\<close> of the table is returned when it matches
  and no category before it does, so the earlier category wins when several match. When
  no category matches, and when the location is missing, the result is NA.
\<close>

theorem map_region_first_match:
  "map_region None = ''NA'' \<and>
   map fst REGION_MAPPING = [''NA'', ''EU'', ''AP'', ''LA''] \<and>
   (\<forall>i<length REGION_MAPPING.
      (\<exists>k\<in>set (snd (REGION_MAPPING ! i)). occurs_in k (lower t)) \<and>
      (\<forall>j<i. \<not> (\<exists>k\<in>set (snd (REGION_MAPPING ! j)). occurs_in k (lower t)))
      \<longrightarrow> map_region (Some t) = fst (REGION_MAPPING ! i)) \<and>
   ((\<forall>i<length REGION_MAPPING.
       \<not> (\<exists>k\<in>set (snd (REGION_MAPPING ! i)). occurs_in k (lower t)))
      \<longrightarrow> map_region (Some t) = ''NA'')"
proof (intro conjI allI impI)
  show "map_region None = ''NA''" by (simp add: map_region_def)
  show "map fst REGION_MAPPING = [''NA'', ''EU'', ''AP'', ''LA'']"
    by (simp add: REGION_MAPPING_def)
next
  fix i
  assume "i < length REGION_MAPPING"
    and "(\<exists>k\<in>set (snd (REGION_MAPPING ! i)). occurs_in k (lower t)) \<and>
      (\<forall>j<i. \<not> (\<exists>k\<in>set (snd (REGION_MAPPING ! j)). occurs_in k (lower t)))"
  then show "map_region (Some t) = fst (REGION_MAPPING ! i)"
    unfolding any_in_iff[symmetric] by (simp add: map_region_def first_code_hit)
next
  assume "\<forall>i<length REGION_MAPPING.
       \<not> (\<exists>k\<in>set (snd (REGION_MAPPING ! i)). occurs_in k (lower t))"
  then show "map_region (Some t) = ''NA''"
    unfolding any_in_iff[symmetric] by (simp add: map_region_def first_code_miss)
qed

text \<open>
  The theorem at three locations: one that matches both NA and EU (NA wins), one that
  matches only EU, and one that matches nothing.
\<close>

theorem map_region_first_match_witness:
  "(\<exists>k\<in>set (snd (REGION_MAPPING ! 1)). occurs_in k (lower ''London, Ontario, Canada'')) \<and>
   (\<exists>k\<in>set (snd (REGION_MAPPING ! 0)). occurs_in k (lower ''London, Ontario, Canada'')) \<and>
   map_region (Some ''London, Ontario, Canada'') = ''NA'' \<and>
   (\<exists>k\<in>set (snd (REGION_MAPPING ! 1)). occurs_in k (lower ''Berlin'')) \<and>
   \<not> (\<exists>k\<in>set (snd (REGION_MAPPING ! 0)). occurs_in k (lower ''Berlin'')) \<and>
   map_region (Some ''Berlin'') = ''EU'' \<and>
   \<not> (\<exists>k\<in>set (snd (REGION_MAPPING ! 0)). occurs_in k (lower ''Reykjavik'')) \<and>
   \<not> (\<exists>k\<in>set (snd (REGION_MAPPING ! 1)). occurs_in k (lower ''Reykjavik'')) \<and>
   \<not> (\<exists>k\<in>set (snd (REGION_MAPPING ! 2)). occurs_in k (lower ''Reykjavik'')) \<and>
   \<not> (\<exists>k\<in>set (snd (REGION_MAPPING ! 3)). occurs_in k (lower ''Reykjavik'')) \<and>
   map_region (Some ''Reykjavik'') = ''NA''"
proof -
  have len: "length REGION_MAPPING = 4" by (simp add: REGION_MAPPING_def)
  have lt4: "\<And>P. (\<forall>i<4::nat. P i) \<longleftrightarrow> P 0 \<and> P 1 \<and> P 2 \<and> P 3"
    by (auto simp: numeral_eq_Suc less_Suc_eq)
  have a1: "\<exists>k\<in>set (snd (REGION_MAPPING ! 1)). occurs_in k (lower ''London, Ontario, Canada'')"
    unfolding any_in_iff[symmetric] by (simp add: REGION_MAPPING_def any_in_def lower_eval)
  have a0: "\<exists>k\<in>set (snd (REGION_MAPPING ! 0)). occurs_in k (lower ''London, Ontario, Canada'')"
    unfolding any_in_iff[symmetric] by (simp add: REGION_MAPPING_def any_in_def lower_eval)
  have b1: "\<exists>k\<in>set (snd (REGION_MAPPING ! 1)). occurs_in k (lower ''Berlin'')"
    unfolding any_in_iff[symmetric] by (simp add: REGION_MAPPING_def any_in_def lower_eval)
  have b0: "\<not> (\<exists>k\<in>set (snd (REGION_MAPPING ! 0)). occurs_in k (lower ''Berlin''))"
    unfolding any_in_iff[symmetric] by (simp add: REGION_MAPPING_def any_in_def lower_eval)
  have c0: "\<not> (\<exists>k\<in>set (snd (REGION_MAPPING ! 0)). occurs_in k (lower ''Reykjavik''))"
    unfolding any_in_iff[symmetric] by (simp add: REGION_MAPPING_def any_in_def lower_eval)
  have c1: "\<not> (\<exists>k\<in>set (snd (REGION_MAPPING ! 1)). occurs_in k (lower ''Reykjavik''))"
    unfolding any_in_iff[symmetric] by (simp add: REGION_MAPPING_def any_in_def lower_eval)
  have c2: "\<not> (\<exists>k\<in>set (snd (REGION_MAPPING ! 2)). occurs_in k (lower ''Reykjavik''))"
    unfolding any_in_iff[symmetric] by (simp add: REGION_MAPPING_def any_in_def lower_eval)
  have c3: "\<not> (\<exists>k\<in>set (snd (REGION_MAPPING ! 3)). occurs_in k (lower ''Reykjavik''))"
    unfolding any_in_iff[symmetric] by (simp add: REGION_MAPPING_def any_in_def lower_eval)
  have f0: "fst (REGION_MAPPING ! 0) = ''NA''" and f1: "fst (REGION_MAPPING ! 1) = ''EU''"
    by (simp_all add: REGION_MAPPING_def)
  have "map_region (Some ''London, Ontario, Canada'') = fst (REGION_MAPPING ! 0)"
    using map_region_first_match[of "''London, Ontario, Canada''"] a0 len by simp
  then have a: "map_region (Some ''London, Ontario, Canada'') = ''NA''"
    unfolding f0 .
  have "map_region (Some ''Berlin'') = fst (REGION_MAPPING ! 1)"
    using map_region_first_match[of "''Berlin''"] b1 b0 len by simp
  then have b: "map_region (Some ''Berlin'') = ''EU''"
    unfolding f1 .
  have "\<forall>i<length REGION_MAPPING.
       \<not> (\<exists>k\<in>set (snd (REGION_MAPPING ! i)). occurs_in k (lower ''Reykjavik''))"
    unfolding len lt4 using c0 c1 c2 c3 by (intro conjI)
  then have c: "map_region (Some ''Reykjavik'') = ''NA''"
    by (rule map_region_first_match[of "''Reykjavik''", THEN conjunct2, THEN conjunct2,
          THEN conjunct2, THEN mp])
  from a1 a0 a b1 b0 b c0 c1 c2 c3 c show ?thesis by (intro conjI)
qed

subsection \<open>Keywords shadowed by an earlier category\<close>

lemma any_in_filter_absent:
  "\<forall>k\<in>set dropped. \<not> str_in k s \<Longrightarrow>
   any_in (filter (\<lambda>k. k \<notin> set dropped) kws) s = any_in kws s"
  by (auto simp: any_in_def list_ex_iff)

lemma first_code_without_absent:
  "\<forall>k\<in>set dropped. \<not> str_in k s \<Longrightarrow>
   first_code (without_keywords dropped m) s d = first_code m s d"
proof (induction m)
  case Nil
  then show ?case by (simp add: without_keywords_def)
next
  case (Cons a m)
  obtain code kws where a: "a = (code, kws)" by (cases a)
  from Cons.prems have "any_in (filter (\<lambda>k. k \<notin> set dropped) kws) s = any_in kws s"
    by (rule any_in_filter_absent)
  moreover from Cons have "first_code (without_keywords dropped m) s d = first_code m s d"
    by blast
  ultimately show ?case using a by (simp add: without_keywords_def)
qed

lemma first_code_without_shadowed:
  assumes disj: "set k0 \<inter> set dropped = {}"
    and shadow: "\<forall>k\<in>set dropped. str_in k s \<longrightarrow> any_in k0 s"
  shows "first_code (without_keywords dropped ((c0, k0) # rest)) s d
         = first_code ((c0, k0) # rest) s d"
proof (cases "any_in k0 s")
  case True
  from disj have "filter (\<lambda>k. k \<notin> set dropped) k0 = k0"
    by (auto simp: filter_id_conv)
  with True show ?thesis by (simp add: without_keywords_def)
next
  case False
  with shadow have "\<forall>k\<in>set dropped. \<not> str_in k s" by blast
  then show ?thesis by (rule first_code_without_absent)
qed

lemma first_code_head_hit:
  "k \<in> set k0 \<Longrightarrow> str_in m s \<Longrightarrow> str_in k m \<Longrightarrow> first_code ((c0, k0) # rest) s d = c0"
proof -
  assume k: "k \<in> set k0" and ms: "str_in m s" and km: "str_in k m"
  from km ms have "str_in k s" by (rule str_in_trans)
  with k have "any_in k0 s" by (auto simp: any_in_def list_ex_iff)
  then show ?thesis by simp
qed

lemma region_shadow:
  assumes ms: "str_in m s" and mm: "m = ''australia'' \<or> m = ''mexico city''"
  shows "first_code REGION_MAPPING s ''NA'' = ''NA''"
proof -
  define us where "us = ''us''"
  define mexico where "mexico = ''mexico''"
  define k0 where "k0 = snd (hd REGION_MAPPING)"
  define rest where "rest = tl REGION_MAPPING"
  have R: "REGION_MAPPING = (''NA'', k0) # rest"
    unfolding k0_def rest_def REGION_MAPPING_def by simp
  have us: "us \<in> set k0" and mexico: "mexico \<in> set k0"
    unfolding us_def mexico_def k0_def REGION_MAPPING_def by simp_all
  from mm have "str_in us m \<or> str_in mexico m"
    unfolding us_def mexico_def by (rule disjE) simp_all
  then show ?thesis
  proof
    assume "str_in us m"
    with us ms show ?thesis unfolding R by (rule first_code_head_hit)
  next
    assume "str_in mexico m"
    with mexico ms show ?thesis unfolding R by (rule first_code_head_hit)
  qed
qed

text \<open>
  Claim C9. A location text that contains australia, as written or after lower-casing,
  is mapped to NA and not to AP, because the NA keyword us occurs inside australia and NA
  is tested first; a text that contains mexico city is mapped to NA and not to LA,
  because the NA keyword mexico occurs inside mexico city. So these two keywords never
  decide the result: the table without them maps every text to the same region.
\<close>

theorem map_region_shadowed_keywords:
  "(occurs_in ''australia'' t \<longrightarrow> map_region (Some t) = ''NA'') \<and>
   (occurs_in ''australia'' (lower t) \<longrightarrow> map_region (Some t) = ''NA'') \<and>
   (occurs_in ''mexico city'' t \<longrightarrow> map_region (Some t) = ''NA'') \<and>
   (occurs_in ''mexico city'' (lower t) \<longrightarrow> map_region (Some t) = ''NA'') \<and>
   first_code (without_keywords [''australia'', ''mexico city''] REGION_MAPPING) (lower t) ''NA''
     = map_region (Some t)"
proof -
  define au where "au = ''australia''"
  define mc where "mc = ''mexico city''"
  have low: "lower au = au" "lower mc = mc"
    unfolding au_def mc_def by (simp_all add: lower_eval)
  have mr: "map_region (Some t) = first_code REGION_MAPPING (lower t) ''NA''"
    by (simp add: map_region_def)
  have hit: "str_in m (lower t) \<Longrightarrow> m = au \<or> m = mc \<Longrightarrow> map_region (Some t) = ''NA''" for m
    unfolding mr au_def mc_def by (rule region_shadow)
  have 2: "occurs_in au (lower t) \<longrightarrow> map_region (Some t) = ''NA''"
    using hit[of au] by (simp add: str_in_iff)
  have 4: "occurs_in mc (lower t) \<longrightarrow> map_region (Some t) = ''NA''"
    using hit[of mc] by (simp add: str_in_iff)
  have 1: "occurs_in au t \<longrightarrow> map_region (Some t) = ''NA''"
    using 2 occurs_in_lower[where k=au and t=t] low by simp
  have 3: "occurs_in mc t \<longrightarrow> map_region (Some t) = ''NA''"
    using 4 occurs_in_lower[where k=mc and t=t] low by simp
  define k0 where "k0 = snd (hd REGION_MAPPING)"
  define rest where "rest = tl REGION_MAPPING"
  have R: "REGION_MAPPING = (''NA'', k0) # rest"
    unfolding k0_def rest_def REGION_MAPPING_def by simp
  have disj: "set k0 \<inter> set [au, mc] = {}"
    unfolding k0_def au_def mc_def REGION_MAPPING_def by simp
  have shadow: "\<forall>k\<in>set [au, mc]. str_in k (lower t) \<longrightarrow> any_in k0 (lower t)"
  proof (intro ballI impI)
    fix k assume k: "k \<in> set [au, mc]" and ks: "str_in k (lower t)"
    from k have "k = au \<or> k = mc" by simp
    with ks have "first_code REGION_MAPPING (lower t) ''NA'' = ''NA''"
      unfolding au_def mc_def by (rule region_shadow)
    show "any_in k0 (lower t)"
    proof (rule ccontr)
      assume no: "\<not> any_in k0 (lower t)"
      from k ks have "str_in au (lower t) \<or> str_in mc (lower t)" by auto
      then have "str_in ''us'' (lower t) \<or> str_in ''mexico'' (lower t)"
      proof
        assume "str_in au (lower t)"
        moreover have "str_in ''us'' au" unfolding au_def by simp
        ultimately show ?thesis using str_in_trans by blast
      next
        assume "str_in mc (lower t)"
        moreover have "str_in ''mexico'' mc" unfolding mc_def by simp
        ultimately show ?thesis using str_in_trans by blast
      qed
      moreover have "''us'' \<in> set k0" "''mexico'' \<in> set k0"
        unfolding k0_def REGION_MAPPING_def by simp_all
      ultimately have "any_in k0 (lower t)" by (auto simp: any_in_def list_ex_iff)
      with no show False by blast
    qed
  qed
  have 5: "first_code (without_keywords [au, mc] REGION_MAPPING) (lower t) ''NA''
     = map_region (Some t)"
    unfolding mr R using disj shadow by (rule first_code_without_shadowed)
  from 1 2 3 4 5 show ?thesis unfolding au_def mc_def by (intro conjI)
qed

text \<open>The theorem at texts that contain the two keywords, with and without capitals.\<close>

theorem map_region_shadowed_keywords_witness:
  "occurs_in ''australia'' ''perth, australia'' \<and>
   map_region (Some ''perth, australia'') = ''NA'' \<and>
   occurs_in ''australia'' (lower ''Sydney, Australia'') \<and>
   map_region (Some ''Sydney, Australia'') = ''NA'' \<and>
   occurs_in ''mexico city'' ''mexico city, mx'' \<and>
   map_region (Some ''mexico city, mx'') = ''NA'' \<and>
   occurs_in ''mexico city'' (lower ''Mexico City'') \<and>
   map_region (Some ''Mexico City'') = ''NA''"
proof -
  have a: "occurs_in ''australia'' ''perth, australia''"
    unfolding str_in_iff[symmetric] by simp
  have b: "occurs_in ''australia'' (lower ''Sydney, Australia'')"
    unfolding str_in_iff[symmetric] by (simp add: lower_eval)
  have c: "occurs_in ''mexico city'' ''mexico city, mx''"
    unfolding str_in_iff[symmetric] by simp
  have d: "occurs_in ''mexico city'' (lower ''Mexico City'')"
    unfolding str_in_iff[symmetric] by (simp add: lower_eval)
  have a': "map_region (Some ''perth, australia'') = ''NA''"
    using a by (rule map_region_shadowed_keywords[THEN conjunct1, rule_format])
  have b': "map_region (Some ''Sydney, Australia'') = ''NA''"
    using b
    by (rule map_region_shadowed_keywords[THEN conjunct2, THEN conjunct1, rule_format])
  have c': "map_region (Some ''mexico city, mx'') = ''NA''"
    using c
    by (rule map_region_shadowed_keywords[THEN conjunct2, THEN conjunct2, THEN conjunct1,
          rule_format])
  have d': "map_region (Some ''Mexico City'') = ''NA''"
    using d
    by (rule map_region_shadowed_keywords[THEN conjunct2, THEN conjunct2, THEN conjunct2,
          THEN conjunct1, rule_format])
  from a a' b b' c c' d d' show ?thesis by (intro conjI)
qed

subsection \<open>Union detector\<close>

lemma is_union_unfold:
  "is_union (Some t) \<longleftrightarrow>
     any_in [''sag'', ''aftra'', ''equity'', ''union''] (lower t) \<and> \<not> str_in ''non-union'' (lower t)"
  unfolding is_union_def Let_def option.case by (rule conj_commute)

text \<open>
  Claim C5. The union detector is false on a missing input, and on a text it is true if
  and only if the lower-cased text contains one of the keywords sag, aftra, equity, union
  as a substring and does not contain the substring non-union.
\<close>

theorem is_union_iff:
  "is_union None = False \<and>
   (is_union (Some t) \<longleftrightarrow>
      (\<exists>k\<in>set [''sag'', ''aftra'', ''equity'', ''union'']. occurs_in k (lower t))
      \<and> \<not> occurs_in ''non-union'' (lower t))"
proof
  show "is_union None = False" unfolding is_union_def option.case by (rule refl)
  show "is_union (Some t) \<longleftrightarrow>
      (\<exists>k\<in>set [''sag'', ''aftra'', ''equity'', ''union'']. occurs_in k (lower t))
      \<and> \<not> occurs_in ''non-union'' (lower t)"
    unfolding is_union_unfold any_in_iff str_in_iff by (rule refl)
qed

text \<open>The equivalence at a union text and at a non-union text.\<close>

theorem is_union_iff_witness:
  "((\<exists>k\<in>set [''sag'', ''aftra'', ''equity'', ''union'']. occurs_in k (lower ''SAG-AFTRA''))
      \<and> \<not> occurs_in ''non-union'' (lower ''SAG-AFTRA'')) \<and>
   \<not> ((\<exists>k\<in>set [''sag'', ''aftra'', ''equity'', ''union'']. occurs_in k (lower ''Non-Union''))
      \<and> \<not> occurs_in ''non-union'' (lower ''Non-Union''))"
proof -
  have a: "is_union (Some ''SAG-AFTRA'')"
    by (simp add: is_union_def Let_def any_in_def lower_eval)
  have b: "\<not> is_union (Some ''Non-Union'')"
    by (simp add: is_union_def Let_def any_in_def lower_eval)
  note A = is_union_iff[of "''SAG-AFTRA''", THEN conjunct2]
  note B = is_union_iff[of "''Non-Union''", THEN conjunct2]
  from a have a': "(\<exists>k\<in>set [''sag'', ''aftra'', ''equity'', ''union'']. occurs_in k (lower ''SAG-AFTRA''))
      \<and> \<not> occurs_in ''non-union'' (lower ''SAG-AFTRA'')"
    by (rule iffD1[OF A])
  have b': "\<not> ((\<exists>k\<in>set [''sag'', ''aftra'', ''equity'', ''union'']. occurs_in k (lower ''Non-Union''))
      \<and> \<not> occurs_in ''non-union'' (lower ''Non-Union''))"
  proof
    assume "(\<exists>k\<in>set [''sag'', ''aftra'', ''equity'', ''union'']. occurs_in k (lower ''Non-Union''))
      \<and> \<not> occurs_in ''non-union'' (lower ''Non-Union'')"
    then have "is_union (Some ''Non-Union'')" by (rule iffD2[OF B])
    with b show False by (rule notE)
  qed
  from a' b' show ?thesis by (rule conjI)
qed

subsection \<open>AI-theme detector\<close>

lemma has_ai_unfold:
  "has_ai_keywords (Some t) \<longleftrightarrow>
     (\<exists>k\<in>set [''ai'', ''robot'', ''android'', ''artificial intelligence'', ''cyborg'',
                ''machine learning'']. occurs_in k (lower t))"
  unfolding has_ai_keywords_def option.case any_in_iff by (rule refl)

text \<open>
  Claim C10. Whenever the lower-cased role description contains the two letters ai
  anywhere, also inside an unrelated word, the AI-theme detector answers true; it
  answers false exactly when the input is missing or none of its six keywords occurs in
  the lower-cased text.
\<close>

theorem has_ai_keywords_ai_substring:
  "(occurs_in ''ai'' (lower t) \<longrightarrow> has_ai_keywords (Some t)) \<and>
   (has_ai_keywords c = False \<longleftrightarrow>
      c = None \<or>
      (\<exists>u. c = Some u \<and>
         (\<forall>k\<in>set [''ai'', ''robot'', ''android'', ''artificial intelligence'', ''cyborg'',
                ''machine learning'']. \<not> occurs_in k (lower u))))"
proof -
  define L where "L = [''ai'', ''robot'', ''android'', ''artificial intelligence'', ''cyborg'',
                ''machine learning'']"
  define ai where "ai = ''ai''"
  have mem: "ai \<in> set L" unfolding L_def ai_def by simp
  have unf: "has_ai_keywords (Some v) \<longleftrightarrow> (\<exists>k\<in>set L. occurs_in k (lower v))" for v
    unfolding L_def by (rule has_ai_unfold)
  have none: "has_ai_keywords None = False"
    unfolding has_ai_keywords_def option.case by (rule refl)
  have 1: "occurs_in ai (lower t) \<longrightarrow> has_ai_keywords (Some t)"
    using mem unf by blast
  have 2: "has_ai_keywords c = False \<longleftrightarrow>
      c = None \<or> (\<exists>u. c = Some u \<and> (\<forall>k\<in>set L. \<not> occurs_in k (lower u)))"
  proof (cases c)
    case None
    with none show ?thesis by simp
  next
    case (Some u)
    with unf[of u] show ?thesis by simp
  qed
  from 1 2 show ?thesis unfolding L_def ai_def by (rule conjI)
qed

text \<open>
  The theorem at two texts that contain ai only inside another word, and at a text with
  no keyword.
\<close>

theorem has_ai_keywords_ai_substring_witness:
  "occurs_in ''ai'' (lower ''Maintain the set'') \<and> has_ai_keywords (Some ''Maintain the set'') \<and>
   occurs_in ''ai'' (lower ''Dog trainer'') \<and> has_ai_keywords (Some ''Dog trainer'') \<and>
   has_ai_keywords (Some ''Stunt double'') = False \<and>
   \<not> (\<exists>k\<in>set [''ai'', ''robot'', ''android'', ''artificial intelligence'', ''cyborg'',
          ''machine learning'']. occurs_in k (lower ''Stunt double''))"
proof -
  have a: "occurs_in ''ai'' (lower ''Maintain the set'')"
    unfolding str_in_iff[symmetric] by (simp add: lower_eval)
  have b: "occurs_in ''ai'' (lower ''Dog trainer'')"
    unfolding str_in_iff[symmetric] by (simp add: lower_eval)
  have c: "has_ai_keywords (Some ''Stunt double'') = False"
    by (simp add: has_ai_keywords_def any_in_def lower_eval)
  have a': "has_ai_keywords (Some ''Maintain the set'')"
    using a by (rule has_ai_keywords_ai_substring[THEN conjunct1, rule_format])
  have b': "has_ai_keywords (Some ''Dog trainer'')"
    using b by (rule has_ai_keywords_ai_substring[THEN conjunct1, rule_format])
  have "Some ''Stunt double'' = None \<or>
      (\<exists>u. Some ''Stunt double'' = Some u \<and>
         (\<forall>k\<in>set [''ai'', ''robot'', ''android'', ''artificial intelligence'', ''cyborg'',
                ''machine learning'']. \<not> occurs_in k (lower u)))"
    using c by (rule has_ai_keywords_ai_substring[of "[]", THEN conjunct2, THEN iffD1])
  then have c': "\<forall>k\<in>set [''ai'', ''robot'', ''android'', ''artificial intelligence'', ''cyborg'',
          ''machine learning'']. \<not> occurs_in k (lower ''Stunt double'')"
    by (simp only: option.inject option.distinct simp_thms ex_simps) 
  have c'': "\<not> (\<exists>k\<in>set [''ai'', ''robot'', ''android'', ''artificial intelligence'', ''cyborg'',
          ''machine learning'']. occurs_in k (lower ''Stunt double''))"
    using c' by (rule not_bexI)
  from a a' b b' c c'' show ?thesis by (intro conjI)
qed

subsection \<open>Rounding and clamping\<close>

lemma py_round_cases: "py_round x = \<lfloor>x\<rfloor> \<or> py_round x = \<lfloor>x\<rfloor> + 1"
  by (simp add: py_round_def Let_def)

lemma py_round_near: "\<bar>of_int (py_round x) - x\<bar> \<le> 1 / 2"
proof -
  have "of_int \<lfloor>x\<rfloor> \<le> x" "x < of_int \<lfloor>x\<rfloor> + 1" by linarith+
  then show ?thesis by (auto simp: py_round_def Let_def)
qed



lemma py_round_unique: "\<bar>of_int k - x\<bar> < 1 / 2 \<Longrightarrow> py_round x = k"
proof -
  assume a: "\<bar>of_int k - x\<bar> < 1 / 2"
  have "\<bar>(of_int (py_round x) :: rat) - of_int k\<bar> < 1"
    using py_round_near[of x] a by linarith
  then have "\<bar>py_round x - k\<bar> < 1"
    by (metis of_int_abs of_int_diff of_int_less_1_iff)
  then show ?thesis by linarith
qed

lemma py_round_of_int: "py_round (of_int k) = k"
  by (rule py_round_unique) simp

lemma py_round_between:
  assumes "of_int a \<le> x" and "x \<le> of_int b"
  shows "a \<le> py_round x \<and> py_round x \<le> b"
proof
  from assms(1) have "a \<le> \<lfloor>x\<rfloor>" by (simp add: le_floor_iff)
  with py_round_cases[of x] show "a \<le> py_round x" by linarith
  show "py_round x \<le> b"
  proof (cases "x = of_int b")
    case True
    then show ?thesis by (simp add: py_round_of_int)
  next
    case False
    with assms(2) have "x < of_int b" by simp
    then have "\<lfloor>x\<rfloor> < b" by (simp add: floor_less_iff)
    with py_round_cases[of x] show ?thesis by linarith
  qed
qed

lemma clamp_bounds: "lo \<le> hi \<Longrightarrow> lo \<le> clamp x lo hi \<and> clamp x lo hi \<le> hi"
  by (auto simp: clamp_def)

lemma py_round_nd_between:
  assumes "of_int a \<le> x" and "x \<le> of_int b"
  shows "of_int a \<le> py_round_nd x n \<and> py_round_nd x n \<le> of_int b"
proof -
  have pos: "(0::rat) < 10 ^ n" by simp
  have "of_int (a * 10 ^ n) \<le> x * 10 ^ n" "x * 10 ^ n \<le> of_int (b * 10 ^ n)"
    using assms pos by (simp_all add: mult_right_mono)
  then have "a * 10 ^ n \<le> py_round (x * 10 ^ n) \<and> py_round (x * 10 ^ n) \<le> b * 10 ^ n"
    by (rule py_round_between)
  then have "(of_int (a * 10 ^ n) :: rat) \<le> of_int (py_round (x * 10 ^ n))"
    "(of_int (py_round (x * 10 ^ n)) :: rat) \<le> of_int (b * 10 ^ n)"
    by (simp_all only: of_int_le_iff)
  then show ?thesis
    using pos by (simp add: py_round_nd_def pos_le_divide_eq pos_divide_le_eq)
qed

lemma floor_rat_divide_numeral: "\<lfloor>numeral a / numeral b :: rat\<rfloor> = numeral a div numeral b"
  by (metis floor_divide_of_int_eq of_int_numeral)

lemma floor_rat_minus_divide_numeral:
  "\<lfloor>- (numeral a / numeral b) :: rat\<rfloor> = - numeral a div numeral b"
  by (metis divide_minus_left floor_divide_of_int_eq of_int_neg_numeral of_int_numeral)

lemmas py_round_eval = py_round_def Let_def floor_rat_divide_numeral floor_rat_minus_divide_numeral

subsection \<open>Sentiment scorer\<close>




subsection \<open>Grouping and aggregation\<close>

lemma pulse_key_pulse_of: "pulse_key (pulse_of k grp) = k"
  by (simp add: pulse_key_def pulse_of_def Let_def)

lemma role_count_day_pulse_of: "role_count_day (pulse_of k grp) = length grp"
  by (simp add: pulse_of_def Let_def)

lemma set_map_filter_Some: "set (List.map_filter f xs) = {k. \<exists>r\<in>set xs. f r = Some k}"
proof (induction xs)
  case Nil
  then show ?case by (simp add: List.map_filter_simps)
next
  case (Cons x xs)
  then show ?case by (cases "f x") (auto simp: List.map_filter_simps)
qed

lemma map_fst_groupby: "map fst (groupby df) = sort (remdups (List.map_filter row_key df))"
  by (simp add: groupby_def comp_def)

lemma groupby_keys_sorted: "sorted_wrt (<) (map fst (groupby df))"
  unfolding map_fst_groupby by (simp add: strict_sorted_iff)

lemma bucket_nonempty_iff: "bucket df k \<noteq> [] \<longleftrightarrow> (\<exists>r\<in>set df. row_key r = Some k)"
  unfolding bucket_def filter_empty_conv by blast

lemma pair_ex_iff: "(\<exists>k. A k \<and> kg = (k, g k)) \<longleftrightarrow> A (fst kg) \<and> snd kg = g (fst kg)"
  by (cases kg) auto

lemma in_groupby_iff:
  "kg \<in> set (groupby df) \<longleftrightarrow> bucket df (fst kg) \<noteq> [] \<and> snd kg = bucket df (fst kg)"
proof -
  have "kg \<in> set (groupby df) \<longleftrightarrow>
      (\<exists>k. (\<exists>r\<in>set df. row_key r = Some k) \<and> kg = (k, bucket df k))"
    unfolding groupby_def set_map set_sort set_remdups set_map_filter_Some by blast
  also have "\<dots> \<longleftrightarrow> bucket df (fst kg) \<noteq> [] \<and> snd kg = bucket df (fst kg)"
    unfolding bucket_nonempty_iff by (rule pair_ex_iff)
  finally show ?thesis .
qed

lemma aggregate_groups_eq:
  "aggregate_groups gs =
     map (\<lambda>kg. pulse_of (fst kg) (snd kg)) (filter (\<lambda>kg. 5 \<le> length (snd kg)) gs)"
  by (induction gs rule: aggregate_groups.induct) simp_all

lemma set_map_filter: "set (map f (filter P xs)) = {f x | x. x \<in> set xs \<and> P x}"
  by auto

lemma set_aggregate_groups:
  "set (aggregate_groups gs) = {pulse_of (fst kg) (snd kg) | kg. kg \<in> set gs \<and> 5 \<le> length (snd kg)}"
  unfolding aggregate_groups_eq by (rule set_map_filter)

lemma in_bucket_and_aggregate_iff:
  "p \<in> set (bucket_and_aggregate df) \<longleftrightarrow>
     (\<exists>k. 5 \<le> length (bucket df k) \<and> p = pulse_of k (bucket df k))"
proof
  assume "p \<in> set (bucket_and_aggregate df)"
  then obtain kg where kg: "kg \<in> set (groupby df)" "5 \<le> length (snd kg)"
    "p = pulse_of (fst kg) (snd kg)"
    unfolding bucket_and_aggregate_def set_aggregate_groups by blast
  from kg(1) have "snd kg = bucket df (fst kg)" unfolding in_groupby_iff by blast
  with kg(2,3) show "\<exists>k. 5 \<le> length (bucket df k) \<and> p = pulse_of k (bucket df k)"
    by metis
next
  assume "\<exists>k. 5 \<le> length (bucket df k) \<and> p = pulse_of k (bucket df k)"
  then obtain k where k: "5 \<le> length (bucket df k)" "p = pulse_of k (bucket df k)" by blast
  from k(1) have "bucket df k \<noteq> []" by (cases "bucket df k") simp_all
  then have "(k, bucket df k) \<in> set (groupby df)"
    unfolding in_groupby_iff by simp
  moreover have "5 \<le> length (snd (k, bucket df k))"
    "p = pulse_of (fst (k, bucket df k)) (snd (k, bucket df k))"
    using k by simp_all
  ultimately show "p \<in> set (bucket_and_aggregate df)"
    unfolding bucket_and_aggregate_def set_aggregate_groups by blast
qed

lemma map_pulse_key_aggregate:
  "map pulse_key (aggregate_groups gs) = map fst (filter (\<lambda>kg. 5 \<le> length (snd kg)) gs)"
  by (induction gs rule: aggregate_groups.induct) (simp_all add: pulse_key_pulse_of)

lemma sorted_wrt_map_filter:
  "sorted_wrt R (map f xs) \<Longrightarrow> sorted_wrt R (map f (filter P xs))"
  by (induction xs) auto

lemma bucket_and_aggregate_sorted:
  "sorted_wrt (<) (map pulse_key (bucket_and_aggregate df))"
  unfolding bucket_and_aggregate_def map_pulse_key_aggregate
  using groupby_keys_sorted by (rule sorted_wrt_map_filter)

lemma sort_key_sorted_id: "sorted_wrt (<) (map f xs) \<Longrightarrow> sort_key f xs = xs"
  by (simp add: sort_key_id_if_sorted strict_sorted_imp_sorted)

lemma process_eq:
  "process to_date capability rows =
     (if bucket_and_aggregate (map (normalize_record to_date capability) rows) = []
      then Inl (KeyError ''date_utc'')
      else Inr (bucket_and_aggregate (map (normalize_record to_date capability) rows)))"
  by (simp add: process_def Let_def sort_key_sorted_id bucket_and_aggregate_sorted)

lemma bucket_and_aggregate_short: "length df < 5 \<Longrightarrow> bucket_and_aggregate df = []"
proof -
  assume short: "length df < 5"
  have "\<not> 5 \<le> length (bucket df k)" for k
  proof -
    have "length (bucket df k) \<le> length df" by (simp add: bucket_def)
    with short show ?thesis by linarith
  qed
  then have "set (bucket_and_aggregate df) = {}"
    unfolding in_bucket_and_aggregate_iff set_eq_iff by simp
  then show ?thesis by simp
qed

subsection \<open>The pipeline on the sample inputs\<close>

lemma bucket_sample:
  "bucket sample_df sample_key =
     [sample_record (Some (2024, 3, 15)) True (Some 1200),
      sample_record (Some (2024, 3, 15)) False (Some 1300),
      sample_record (Some (2024, 3, 15)) False None,
      sample_record (Some (2024, 3, 15)) False None,
      sample_record (Some (2024, 3, 15)) False None]"
  by (simp add: bucket_def sample_df_def sample_key_def row_key_def sample_record_def)

lemma length_bucket_sample: "length (bucket sample_df sample_key) = 5"
  unfolding bucket_sample by simp

lemma sample_pulse_in:
  "pulse_of sample_key (bucket sample_df sample_key) \<in> set (bucket_and_aggregate sample_df)"
  unfolding in_bucket_and_aggregate_iff using length_bucket_sample by (intro exI[of _ sample_key]) simp

lemma normalize_sample_raw_gen:
  "normalize_record sample_to_date sample_capability (sample_raw d) = sample_derived (sample_to_date d)"
  by (simp add: normalize_record_def sample_raw_def sample_derived_def
      map_region_def REGION_MAPPING_def map_project_type_def PROJECT_TYPE_MAPPING_def
      is_lead_def is_union_def has_ai_keywords_def any_in_def lower_eval
      extract_rate_def is_digit_def digit_chars_def digits_val_def digit_val_def
      calc_sentiment_def sample_capability_def py_round_eval)

lemma to_date_good: "sample_to_date (Some ''2024-03-15'') = Some (2024, 3, 15)"
  by (simp add: sample_to_date_def)

lemma to_date_bad: "sample_to_date (Some ''soon'') = None"
  by (simp add: sample_to_date_def)

lemma normalize_six_rows:
  "map (normalize_record sample_to_date sample_capability) six_rows =
     [sample_derived (Some (2024, 3, 15)), sample_derived (Some (2024, 3, 15)),
      sample_derived None, sample_derived (Some (2024, 3, 15)),
      sample_derived (Some (2024, 3, 15)), sample_derived (Some (2024, 3, 15))]"
  by (simp add: six_rows_def normalize_sample_raw_gen to_date_good to_date_bad)

lemma row_key_sample_derived:
  "row_key (sample_derived (Some (2024, 3, 15))) = Some sample_key"
  "row_key (sample_derived None) = None"
  by (simp_all add: row_key_def sample_derived_def sample_key_def)

lemma bucket_and_aggregate_six:
  "bucket_and_aggregate (map (normalize_record sample_to_date sample_capability) six_rows) =
     [pulse_of sample_key
        [sample_derived (Some (2024, 3, 15)), sample_derived (Some (2024, 3, 15)),
         sample_derived (Some (2024, 3, 15)),
         sample_derived (Some (2024, 3, 15)), sample_derived (Some (2024, 3, 15))]]"
  unfolding normalize_six_rows
  by (simp add: bucket_and_aggregate_def groupby_def bucket_def List.map_filter_simps
      row_key_sample_derived)

lemma process_six:
  "process sample_to_date sample_capability six_rows =
     Inr [pulse_of sample_key
        [sample_derived (Some (2024, 3, 15)), sample_derived (Some (2024, 3, 15)),
         sample_derived (Some (2024, 3, 15)),
         sample_derived (Some (2024, 3, 15)), sample_derived (Some (2024, 3, 15))]]"
  unfolding process_eq bucket_and_aggregate_six by simp

lemma normalize_four_rows:
  "map (normalize_record sample_to_date sample_capability) four_rows =
     [sample_derived (Some (2024, 3, 15)), sample_derived (Some (2024, 3, 15)),
      sample_derived (Some (2024, 3, 15)), sample_derived (Some (2024, 3, 15))]"
  by (simp add: four_rows_def normalize_sample_raw_gen to_date_good)

subsection \<open>Suppression floor\<close>

text \<open>
  Claim C1. Every row the aggregator emits has \<open>role_count_day\<close> at least 5, equal to the
  number of derived records of its bucket; a bucket with fewer than 5 records has no row
  in the output. The same holds for the rows that \<^verbatim>\<open>process\<close> hands to the writer.
\<close>

theorem suppression_floor:
  "(\<forall>p\<in>set (bucket_and_aggregate df).
      5 \<le> role_count_day p \<and> role_count_day p = length (bucket df (pulse_key p))) \<and>
   (\<forall>k. length (bucket df k) < 5 \<longrightarrow> k \<notin> pulse_key ` set (bucket_and_aggregate df)) \<and>
   (\<forall>out. process to_date capability rows = Inr out \<longrightarrow>
      (\<forall>p\<in>set out. 5 \<le> role_count_day p \<and>
         role_count_day p
           = length (bucket (map (normalize_record to_date capability) rows) (pulse_key p))))"
proof -
  have A: "5 \<le> role_count_day p \<and> role_count_day p = length (bucket d (pulse_key p))"
    if "p \<in> set (bucket_and_aggregate d)" for p d
  proof -
    from that obtain k where "5 \<le> length (bucket d k)" "p = pulse_of k (bucket d k)"
      unfolding in_bucket_and_aggregate_iff by blast
    then show ?thesis by (simp add: role_count_day_pulse_of pulse_key_pulse_of)
  qed
  have B: "k \<notin> pulse_key ` set (bucket_and_aggregate df)" if small: "length (bucket df k) < 5" for k
  proof
    assume "k \<in> pulse_key ` set (bucket_and_aggregate df)"
    then obtain p where p: "p \<in> set (bucket_and_aggregate df)" "k = pulse_key p" by blast
    from A[OF p(1)] p(2) have "5 \<le> length (bucket df k)" by simp
    with small show False by simp
  qed
  have C: "5 \<le> role_count_day p \<and>
         role_count_day p
           = length (bucket (map (normalize_record to_date capability) rows) (pulse_key p))"
    if "process to_date capability rows = Inr out" "p \<in> set out" for out p
  proof -
    from that(1) have "out = bucket_and_aggregate (map (normalize_record to_date capability) rows)"
      unfolding process_eq by (simp split: if_splits)
    with that(2) show ?thesis using A by blast
  qed
  from A B C show ?thesis by blast
qed

text \<open>
  The theorem on the sample frame: the bucket of five rows is emitted with count 5, the
  bucket of two rows is not, and \<^verbatim>\<open>process\<close> on six listings emits one row of count 5.
\<close>

theorem suppression_floor_witness:
  "pulse_of sample_key (bucket sample_df sample_key) \<in> set (bucket_and_aggregate sample_df) \<and>
   role_count_day (pulse_of sample_key (bucket sample_df sample_key)) = 5 \<and>
   length (bucket sample_df ((2024, 3, 16), ''NA'', ''F'')) = 2 \<and>
   ((2024, 3, 16), ''NA'', ''F'') \<notin> pulse_key ` set (bucket_and_aggregate sample_df) \<and>
   process sample_to_date sample_capability six_rows =
     Inr [pulse_of sample_key
        [sample_derived (Some (2024, 3, 15)), sample_derived (Some (2024, 3, 15)),
         sample_derived (Some (2024, 3, 15)),
         sample_derived (Some (2024, 3, 15)), sample_derived (Some (2024, 3, 15))]] \<and>
   role_count_day (pulse_of sample_key
        [sample_derived (Some (2024, 3, 15)), sample_derived (Some (2024, 3, 15)),
         sample_derived (Some (2024, 3, 15)),
         sample_derived (Some (2024, 3, 15)), sample_derived (Some (2024, 3, 15))]) = 5"
proof -
  define p where "p = pulse_of sample_key (bucket sample_df sample_key)"
  define k2 :: bucket_key where "k2 = ((2024, 3, 16), ''NA'', ''F'')"
  define g where "g = [sample_derived (Some (2024, 3, 15)), sample_derived (Some (2024, 3, 15)),
         sample_derived (Some (2024, 3, 15)),
         sample_derived (Some (2024, 3, 15)), sample_derived (Some (2024, 3, 15))]"
  define q where "q = pulse_of sample_key g"
  note T = suppression_floor[of sample_df sample_to_date sample_capability six_rows]
  have pin: "p \<in> set (bucket_and_aggregate sample_df)"
    unfolding p_def by (rule sample_pulse_in)
  have pk: "pulse_key p = sample_key" unfolding p_def by (rule pulse_key_pulse_of)
  from T[THEN conjunct1, THEN bspec, OF pin]
  have "role_count_day p = length (bucket sample_df sample_key)" unfolding pk by blast
  then have 1: "role_count_day p = 5" unfolding length_bucket_sample .
  have len2: "length (bucket sample_df k2) = 2"
    unfolding k2_def
    by (simp add: bucket_def sample_df_def row_key_def sample_record_def)
  then have "length (bucket sample_df k2) < 5" by simp
  with T[THEN conjunct2, THEN conjunct1, THEN spec, of k2]
  have 2: "k2 \<notin> pulse_key ` set (bucket_and_aggregate sample_df)" by (rule mp)
  have pr: "process sample_to_date sample_capability six_rows = Inr [q]"
    unfolding q_def g_def by (rule process_six)
  have "q \<in> set [q]" by simp
  with T[THEN conjunct2, THEN conjunct2, THEN spec, of "[q]", THEN mp, OF pr]
  have "5 \<le> role_count_day q \<and> role_count_day q
     = length (bucket (map (normalize_record sample_to_date sample_capability) six_rows) (pulse_key q))"
    by (rule bspec)
  moreover have "length (bucket (map (normalize_record sample_to_date sample_capability) six_rows)
      (pulse_key q)) = 5"
    unfolding q_def pulse_key_pulse_of normalize_six_rows
    by (simp add: bucket_def row_key_sample_derived)
  ultimately have 3: "role_count_day q = 5" by simp
  from pin 1 len2 2 pr 3 show ?thesis unfolding p_def k2_def q_def g_def by (intro conjI)
qed

subsection \<open>Output of the pipeline\<close>

lemma process_Inr_sorted:
  assumes "process to_date capability rows = Inr out"
  shows "out = bucket_and_aggregate (map (normalize_record to_date capability) rows)
         \<and> out \<noteq> [] \<and> sorted_wrt (<) (map pulse_key out)"
proof -
  from assms have "out = bucket_and_aggregate (map (normalize_record to_date capability) rows)"
    and "out \<noteq> []"
    unfolding process_eq by (auto split: if_splits)
  then show ?thesis using bucket_and_aggregate_sorted by simp
qed

lemma process_empty_raises:
  "bucket_and_aggregate (map (normalize_record to_date capability) rows) = []
   \<Longrightarrow> process to_date capability rows = Inl (KeyError ''date_utc'')"
  unfolding process_eq by simp

text \<open>
  Claim C2 fails on the code where every group is suppressed: on four listings of one
  bucket the aggregator returns no row, and \<^verbatim>\<open>process\<close> ends in \<^verbatim>\<open>KeyError\<close> at
  \<^verbatim>\<open>sort_values\<close> instead of producing an empty output. (When some row survives, the
  output is the list of surviving rows in strictly ascending key order: lemma
  \<open>process_Inr_sorted\<close>.)
\<close>

theorem process_all_suppressed_raises:
  "length (bucket (map (normalize_record sample_to_date sample_capability) four_rows) sample_key) = 4 \<and>
   bucket_and_aggregate (map (normalize_record sample_to_date sample_capability) four_rows) = [] \<and>
   process sample_to_date sample_capability four_rows = Inl (KeyError ''date_utc'')"
proof (intro conjI)
  show "length (bucket (map (normalize_record sample_to_date sample_capability) four_rows) sample_key) = 4"
    unfolding normalize_four_rows by (simp add: bucket_def row_key_sample_derived)
  have "length (map (normalize_record sample_to_date sample_capability) four_rows) < 5"
    by (simp add: four_rows_def)
  then show e: "bucket_and_aggregate (map (normalize_record sample_to_date sample_capability) four_rows) = []"
    by (rule bucket_and_aggregate_short)
  then show "process sample_to_date sample_capability four_rows = Inl (KeyError ''date_utc'')"
    by (rule process_empty_raises)
qed

subsection \<open>Records without a date\<close>












subsection \<open>Median rate and percentage fields\<close>


lemma lead_share_pulse_of:
  "lead_share_pct_day (pulse_of k grp) =
     py_round_nd (clamp (of_nat (count_true (map is_lead_col grp)) / of_nat (length grp)) 0 1) 1"
  by (simp add: pulse_of_def Let_def)

lemma union_share_pulse_of:
  "union_share_pct_day (pulse_of k grp) =
     py_round_nd (clamp (of_nat (count_true (map is_union_col grp)) / of_nat (length grp)) 0 1) 1"
  by (simp add: pulse_of_def Let_def)

lemma theme_ai_share_pulse_of:
  "theme_ai_share_pct_day (pulse_of k grp) =
     py_round_nd (clamp (of_nat (count_true (map has_ai grp)) / of_nat (length grp)) 0 1) 1"
  by (simp add: pulse_of_def Let_def)


lemma clamped_pct_range:
  "0 \<le> py_round_nd (clamp x 0 1) 1 \<and> py_round_nd (clamp x 0 1) 1 \<le> 1"
proof -
  have "(0::rat) \<le> clamp x 0 1 \<and> clamp x 0 1 \<le> 1" by (rule clamp_bounds) simp
  then have "of_int 0 \<le> clamp x 0 1" "clamp x 0 1 \<le> of_int 1" by simp_all
  then have "of_int 0 \<le> py_round_nd (clamp x 0 1) 1 \<and> py_round_nd (clamp x 0 1) 1 \<le> of_int 1"
    by (rule py_round_nd_between)
  then show ?thesis by simp
qed

lemma py_round_nd_1_near:
  "\<exists>k::int. py_round_nd x 1 = of_int k / 10 \<and> \<bar>py_round_nd x 1 - x\<bar> \<le> 1 / 20"
proof -
  define r :: rat where "r = of_int (py_round (x * 10))"
  have e: "py_round_nd x 1 = r / 10" by (simp add: py_round_nd_def r_def)
  have "\<bar>r - x * 10\<bar> \<le> 1 / 2" unfolding r_def by (rule py_round_near)
  then have "\<bar>r / 10 - x\<bar> \<le> 1 / 20" by linarith
  then have "\<bar>py_round_nd x 1 - x\<bar> \<le> 1 / 20" unfolding e .
  moreover have "py_round_nd x 1 = of_int (py_round (x * 10)) / 10" unfolding e r_def ..
  ultimately show ?thesis by blast
qed






lemma flags_sample:
  "count_true (map is_lead_col (bucket sample_df sample_key)) = 1"
  "count_true (map is_union_col (bucket sample_df sample_key)) = 1"
  "count_true (map has_ai (bucket sample_df sample_key)) = 1"
  unfolding bucket_sample by (simp_all add: count_true_def sample_record_def)

lemma one_fifth_rounded: "py_round_nd (clamp (of_nat 1 / of_nat 5) 0 1) 1 = 1 / 5"
  by (simp add: clamp_def py_round_nd_def py_round_eval)



text \<open>
  Claim C7. For every emitted row, each of the three percentage fields is the count of
  the flag in the bucket divided by the size of the bucket, clamped to \<open>[0, 1]\<close> and
  rounded to one decimal, and lies in \<open>[0, 1]\<close>. The bound does not depend on the ratio:
  the clamped and rounded value of any number lies in \<open>[0, 1]\<close>. Rounding to one decimal
  gives a multiple of 0.1 within 0.05 of its argument.
\<close>

theorem percentage_fields_clamped:
  "(\<forall>p\<in>set (bucket_and_aggregate df).
      lead_share_pct_day p =
        py_round_nd (clamp (of_nat (count_true (map is_lead_col (bucket df (pulse_key p))))
                            / of_nat (length (bucket df (pulse_key p)))) 0 1) 1 \<and>
      union_share_pct_day p =
        py_round_nd (clamp (of_nat (count_true (map is_union_col (bucket df (pulse_key p))))
                            / of_nat (length (bucket df (pulse_key p)))) 0 1) 1 \<and>
      theme_ai_share_pct_day p =
        py_round_nd (clamp (of_nat (count_true (map has_ai (bucket df (pulse_key p))))
                            / of_nat (length (bucket df (pulse_key p)))) 0 1) 1 \<and>
      0 \<le> lead_share_pct_day p \<and> lead_share_pct_day p \<le> 1 \<and>
      0 \<le> union_share_pct_day p \<and> union_share_pct_day p \<le> 1 \<and>
      0 \<le> theme_ai_share_pct_day p \<and> theme_ai_share_pct_day p \<le> 1) \<and>
   (\<forall>x. 0 \<le> py_round_nd (clamp x 0 1) 1 \<and> py_round_nd (clamp x 0 1) 1 \<le> 1) \<and>
   (\<forall>x. \<exists>k::int. py_round_nd x 1 = of_int k / 10 \<and> \<bar>py_round_nd x 1 - x\<bar> \<le> 1 / 20)"
proof (intro conjI ballI allI)
  fix p
  assume "p \<in> set (bucket_and_aggregate df)"
  then obtain k where p: "p = pulse_of k (bucket df k)"
    unfolding in_bucket_and_aggregate_iff by blast
  then have pk: "pulse_key p = k" by (simp add: pulse_key_pulse_of)
  show l: "lead_share_pct_day p =
        py_round_nd (clamp (of_nat (count_true (map is_lead_col (bucket df (pulse_key p))))
                            / of_nat (length (bucket df (pulse_key p)))) 0 1) 1"
    unfolding pk unfolding p by (rule lead_share_pulse_of)
  show u: "union_share_pct_day p =
        py_round_nd (clamp (of_nat (count_true (map is_union_col (bucket df (pulse_key p))))
                            / of_nat (length (bucket df (pulse_key p)))) 0 1) 1"
    unfolding pk unfolding p by (rule union_share_pulse_of)
  show a: "theme_ai_share_pct_day p =
        py_round_nd (clamp (of_nat (count_true (map has_ai (bucket df (pulse_key p))))
                            / of_nat (length (bucket df (pulse_key p)))) 0 1) 1"
    unfolding pk unfolding p by (rule theme_ai_share_pulse_of)
  show "0 \<le> lead_share_pct_day p" "lead_share_pct_day p \<le> 1"
    unfolding l using clamped_pct_range by blast+
  show "0 \<le> union_share_pct_day p" "union_share_pct_day p \<le> 1"
    unfolding u using clamped_pct_range by blast+
  show "0 \<le> theme_ai_share_pct_day p" "theme_ai_share_pct_day p \<le> 1"
    unfolding a using clamped_pct_range by blast+
next
  fix x
  show "0 \<le> py_round_nd (clamp x 0 1) 1" "py_round_nd (clamp x 0 1) 1 \<le> 1"
    using clamped_pct_range by blast+
  show "\<exists>k::int. py_round_nd x 1 = of_int k / 10 \<and> \<bar>py_round_nd x 1 - x\<bar> \<le> 1 / 20"
    by (rule py_round_nd_1_near)
qed

text \<open>The theorem on the sample frame: one flagged record of five, share 0.2.\<close>

theorem percentage_fields_clamped_witness:
  "pulse_of sample_key (bucket sample_df sample_key) \<in> set (bucket_and_aggregate sample_df) \<and>
   lead_share_pct_day (pulse_of sample_key (bucket sample_df sample_key)) = 1 / 5 \<and>
   union_share_pct_day (pulse_of sample_key (bucket sample_df sample_key)) = 1 / 5 \<and>
   theme_ai_share_pct_day (pulse_of sample_key (bucket sample_df sample_key)) = 1 / 5 \<and>
   0 \<le> lead_share_pct_day (pulse_of sample_key (bucket sample_df sample_key)) \<and>
   lead_share_pct_day (pulse_of sample_key (bucket sample_df sample_key)) \<le> 1"
proof -
  define p where "p = pulse_of sample_key (bucket sample_df sample_key)"
  have pin: "p \<in> set (bucket_and_aggregate sample_df)"
    unfolding p_def by (rule sample_pulse_in)
  have pk: "pulse_key p = sample_key" unfolding p_def by (rule pulse_key_pulse_of)
  note P = percentage_fields_clamped[of sample_df, THEN conjunct1, THEN bspec, OF pin,
      unfolded pk flags_sample length_bucket_sample one_fifth_rounded]
  from P have l: "lead_share_pct_day p = 1 / 5"
    and u: "union_share_pct_day p = 1 / 5"
    and a: "theme_ai_share_pct_day p = 1 / 5"
    and lo: "0 \<le> lead_share_pct_day p" and hi: "lead_share_pct_day p \<le> 1"
    by blast+
  from pin l u a lo hi show ?thesis unfolding p_def by (intro conjI)
qed

end
